theory Spec2Isabelle
  imports Complex_Main "HOL-Library.Product_Lexorder" "HOL-Library.Multiset"
    "HOL-Library.Log_Nat"
begin

section \<open>Data model of hier\_object\<close>

text \<open>
  The library keeps mutable Python objects that refer to each other (an \<open>Overlap\<close> tuple
  holds a reference to the other object, and \<open>find_parent\<close> mutates the object behind that
  reference).  Objects therefore live in an explicit heap, a function from addresses to
  object values; a collection (the dict of dicts of lists, \<open>create_all_dict\<close>) holds
  addresses and keeps the insertion order of its keys, which is the iteration order of
  \<open>.values()\<close>.

  Numbers are Python floats, that is IEEE binary64 values.  A float is represented by the
  rational number it denotes; every arithmetic operation of the source is the exact
  operation followed by \<open>fl\<close>, the rounding to the nearest binary64 value with ties to
  the even mantissa, and \<open>round(x, 5)\<close> is the decimal rounding of the exact value of
  \<open>x\<close> (ties to even) followed by \<open>fl\<close>, as CPython computes it.  The exponent range
  is taken as unbounded: infinities, NaN and underflow are outside this model.  A row holds
  the numbers written in its four coordinate fields; \<open>float(...)\<close> is \<open>fl\<close> of that
  number, so missing keys and unparsable strings are outside this model too.
\<close>

type_synonym label = string
type_synonym image_id = string
type_synonym addr = nat
type_synonym cid = nat

datatype error = AssertionError | AttributeError | TypeError | ZeroDivisionError

text \<open>The namedtuple \<open>Overlap\<close>; \<open>obj\<close> is the reference to the other object.\<close>

record Overlap =
  index :: nat
  self_inside_other :: bool
  center_of_self :: bool
  other_inside_self :: bool
  center_of_other :: bool
  intersection :: rat
  iou :: rat
  iom :: rat
  obj :: addr

text \<open>
  The attributes of a \<open>HierObject\<close>.  The attribute \<open>index\<close> of the source is the field
  \<open>idx\<close> (the name \<open>index\<close> is taken by \<open>Overlap\<close>), the attribute \<open>all\<close> is the
  field \<open>all_ref\<close>, a reference to the collection the object was added to.  The four
  relationship attributes are \<open>None\<close> until a pass sets them.
\<close>

record HierObject =
  label :: label
  imageID :: image_id
  x0 :: rat
  x1 :: rat
  y0 :: rat
  y1 :: rat
  w :: rat
  h :: rat
  xc :: rat
  yc :: rat
  area :: rat
  idx :: nat
  all_ref :: cid
  overlap :: "(label \<rightharpoonup> Overlap list) option"
  duplicate :: "bool option"
  parent :: "(label \<rightharpoonup> nat) option"
  children :: "(label \<rightharpoonup> nat list) option"

type_synonym heap = "addr \<Rightarrow> HierObject"
type_synonym object_dict = "(label \<times> addr list) list"
type_synonym collection = "(image_id \<times> object_dict) list"

text \<open>An annotation row; the coordinate fields hold the numbers written in them.\<close>

record row =
  ImageID :: image_id
  LabelName :: label
  XMin :: rat
  XMax :: rat
  YMin :: rat
  YMax :: rat

text \<open>
  The interpreter state the constructor works on: the object heap with its next free
  address, the store of collections with its next free identifier, and the class
  attribute \<open>HierObject.default_all\<close>.
\<close>

record world =
  heap :: heap
  nxt :: addr
  colls :: "cid \<Rightarrow> collection"
  ncoll :: cid
  default_all :: "cid option"

section \<open>Floating point\<close>

text \<open>Rounding of the fraction \<open>a / b\<close> (\<open>b\<close> positive) to the nearest integer, ties to
  the even one.\<close>

definition rne_frac :: "int \<Rightarrow> int \<Rightarrow> int" where
  "rne_frac a b =
     (let d = a div b; r = a mod b
      in if 2 * r < b then d else if b < 2 * r then d + 1
         else if even d then d else d + 1)"

text \<open>
  The binary64 value nearest to a rational \<open>p / q\<close> (both positive): the exponent \<open>e\<close>
  of the last mantissa bit is \<open>\<lfloor>log\<^sub>2 (p / q)\<rfloor> - 52\<close>, found from the bit lengths of \<open>p\<close>
  and \<open>q\<close>, and the mantissa is \<open>p / (q * 2\<^sup>e)\<close> rounded to an integer of 53 bits.
\<close>

definition fl_exp :: "int \<Rightarrow> int \<Rightarrow> int" where
  "fl_exp p q =
     (let k = bitlen p - bitlen q
      in (if (if 0 \<le> k then q * 2 ^ nat k \<le> p else q \<le> p * 2 ^ nat (- k))
          then k else k - 1) - 52)"

definition fl_man :: "int \<Rightarrow> int \<Rightarrow> int \<Rightarrow> int" where
  "fl_man p q e =
     (if 0 \<le> e then rne_frac p (q * 2 ^ nat e) else rne_frac (p * 2 ^ nat (- e)) q)"

definition scale2 :: "int \<Rightarrow> int \<Rightarrow> rat" where
  "scale2 m e =
     (if 0 \<le> e then of_int (m * 2 ^ nat e) else of_int m / of_int (2 ^ nat (- e)))"

definition fl :: "rat \<Rightarrow> rat" where
  "fl x =
     (if x = 0 then 0
      else let (p, q) = quotient_of \<bar>x\<bar>; e = fl_exp p q
           in sgn x * scale2 (fl_man p q e) e)"

text \<open>The float operations \<open>+\<close>, \<open>-\<close>, \<open>*\<close> and \<open>/\<close> (on a divisor that is not zero).\<close>

definition fadd :: "rat \<Rightarrow> rat \<Rightarrow> rat" where
  "fadd a b = fl (a + b)"

definition fsub :: "rat \<Rightarrow> rat \<Rightarrow> rat" where
  "fsub a b = fl (a - b)"

definition fmul :: "rat \<Rightarrow> rat \<Rightarrow> rat" where
  "fmul a b = fl (a * b)"

definition fdiv :: "rat \<Rightarrow> rat \<Rightarrow> rat" where
  "fdiv a b = fl (a / b)"

text \<open>\<open>rn = lambda x: round(x, 5)\<close>: the nearest multiple of \<open>10\<^sup>-\<^sup>5\<close> of the exact value,
  ties to even, converted back to a float.\<close>

definition rn :: "rat \<Rightarrow> rat" where
  "rn x =
     (case quotient_of (x * 100000) of (p, q) \<Rightarrow> fl (of_int (rne_frac p q) / 100000))"

section \<open>Construction\<close>

definition blank :: HierObject where
  "blank = \<lparr> label = [], imageID = [], x0 = 0, x1 = 0, y0 = 0, y1 = 0, w = 0, h = 0,
             xc = 0, yc = 0, area = 0, idx = 0, all_ref = 0, overlap = None,
             duplicate = None, parent = None, children = None \<rparr>"

text \<open>\<open>HierObject.parse\<close>: sets the label, the image and the rounded geometry of \<open>self\<close>;
  each \<open>assert\<close> is an error branch.\<close>

definition parse :: "HierObject \<Rightarrow> row \<Rightarrow> error + HierObject" where
  "parse self r =
     (let s1 = self\<lparr> label := LabelName r, imageID := ImageID r \<rparr>;
          s2 = s1\<lparr> x0 := rn (fl (XMin r)) \<rparr>;
          s3 = s2\<lparr> x1 := rn (fl (XMax r)) \<rparr>;
          s4 = s3\<lparr> y0 := rn (fl (YMin r)) \<rparr>;
          s5 = s4\<lparr> y1 := rn (fl (YMax r)) \<rparr>;
          s6 = s5\<lparr> w := rn (fsub (x1 s5) (x0 s5)) \<rparr>
      in if \<not> 0 < w s6 then Inl AssertionError
         else let s7 = s6\<lparr> h := rn (fsub (y1 s6) (y0 s6)) \<rparr>
              in if \<not> 0 < h s7 then Inl AssertionError else Inr s7)"

text \<open>\<open>create_all_dict\<close> allocates a new, empty collection.\<close>

definition create_all_dict :: "world \<Rightarrow> cid \<times> world" where
  "create_all_dict wd =
     (ncoll wd, wd\<lparr> colls := (colls wd)(ncoll wd := []), ncoll := Suc (ncoll wd) \<rparr>)"

text \<open>\<open>d[k].append(a)\<close> on a \<open>defaultdict(list)\<close> whose keys keep their insertion order.\<close>

fun dd_append :: "object_dict \<Rightarrow> label \<Rightarrow> addr \<Rightarrow> object_dict" where
  "dd_append [] l a = [(l, [a])]"
| "dd_append ((k, v) # r) l a =
     (if k = l then (k, v @ [a]) # r else (k, v) # dd_append r l a)"

text \<open>\<open>all[image][label].append(a)\<close> on the dict of dicts.\<close>

fun all_append :: "collection \<Rightarrow> image_id \<Rightarrow> label \<Rightarrow> addr \<Rightarrow> collection" where
  "all_append [] i l a = [(i, [(l, [a])])]"
| "all_append ((k, d) # r) i l a =
     (if k = i then (k, dd_append d l a) # r else (k, d) # all_append r i l a)"

text \<open>\<open>all[image][label]\<close>, read without creating keys.\<close>

definition bucket :: "collection \<Rightarrow> image_id \<Rightarrow> label \<Rightarrow> addr list" where
  "bucket c i l =
     (case map_of c i of None \<Rightarrow> []
      | Some d \<Rightarrow> (case map_of d l of None \<Rightarrow> [] | Some v \<Rightarrow> v))"

text \<open>
  \<open>HierObject.__init__(obj, all_obj)\<close>.  The result pairs the state the interpreter is
  left in with either the exception raised or the address of the new object: an exception
  does not undo what was done before it.
\<close>

definition HierObject_init :: "row \<Rightarrow> cid option \<Rightarrow> world \<Rightarrow> world \<times> (error + addr)" where
  "HierObject_init r all_obj wd =
     (let (c, wd1) =
            (case all_obj of
               None \<Rightarrow>
                 (case default_all wd of
                    None \<Rightarrow> (let (c', wd') = create_all_dict wd
                             in (c', wd'\<lparr> default_all := Some c' \<rparr>))
                  | Some c' \<Rightarrow> (c', wd))
             | Some c' \<Rightarrow> (c', wd))
      in case parse (blank\<lparr> all_ref := c \<rparr>) r of
           Inl e \<Rightarrow> (wd1, Inl e)
         | Inr s \<Rightarrow>
             (let s1 = s\<lparr> xc := rn (fdiv (fadd (x0 s) (x1 s)) 2) \<rparr>;
                  s2 = s1\<lparr> yc := rn (fdiv (fadd (y0 s1) (y1 s1)) 2) \<rparr>;
                  s3 = s2\<lparr> area := fmul (w s2) (h s2) \<rparr>
              in if \<not> 0 < area s3 then (wd1, Inl AssertionError)
                 else
                   (let a = nxt wd1;
                        cl = all_append (colls wd1 c) (imageID s3) (label s3) a;
                        s4 = s3\<lparr> idx := length (bucket cl (imageID s3) (label s3)) - 1,
                                  overlap := None, duplicate := None,
                                  parent := None, children := None \<rparr>
                    in (wd1\<lparr> heap := (heap wd1)(a := s4), nxt := Suc a,
                              colls := (colls wd1)(c := cl) \<rparr>, Inr a))))"

text \<open>\<open>clear_default_all\<close>.\<close>

definition clear_default_all :: "world \<Rightarrow> world" where
  "clear_default_all wd = wd\<lparr> default_all := None \<rparr>"

section \<open>Pairwise geometry\<close>

definition has_intersection :: "HierObject \<Rightarrow> HierObject \<Rightarrow> bool" where
  "has_intersection self other =
     (let ww = fsub (min (x1 self) (x1 other)) (max (x0 self) (x0 other));
          hh = fsub (min (y1 self) (y1 other)) (max (y0 self) (y0 other))
      in 0 < ww \<and> 0 < hh)"

definition is_inside :: "HierObject \<Rightarrow> HierObject \<Rightarrow> bool" where
  "is_inside self other =
     (x0 other \<le> x0 self \<and> x1 self \<le> x1 other \<and> y0 other \<le> y0 self \<and> y1 self \<le> y1 other)"

definition center_is_inside :: "HierObject \<Rightarrow> HierObject \<Rightarrow> bool" where
  "center_is_inside self other =
     (x0 other < xc self \<and> xc self < x1 other \<and> y0 other < yc self \<and> yc self < y1 other)"

definition intersection_area :: "HierObject \<Rightarrow> HierObject \<Rightarrow> rat" where
  "intersection_area self other =
     (let ww = fsub (min (x1 self) (x1 other)) (max (x0 self) (x0 other));
          hh = fsub (min (y1 self) (y1 other)) (max (y0 self) (y0 other))
      in if ww \<le> 0 \<or> hh \<le> 0 then 0 else fmul ww hh)"

section \<open>Overlap index\<close>

text \<open>\<open>d.get(k, [])\<close> and \<open>d[k].append(v)\<close> on a \<open>defaultdict(list)\<close> seen as a map.\<close>

definition get_list :: "('k \<rightharpoonup> 'v list) \<Rightarrow> 'k \<Rightarrow> 'v list" where
  "get_list d k = (case d k of None \<Rightarrow> [] | Some v \<Rightarrow> v)"

definition append_to :: "('k \<rightharpoonup> 'v list) \<Rightarrow> 'k \<Rightarrow> 'v \<Rightarrow> ('k \<rightharpoonup> 'v list)" where
  "append_to d k v = d(k \<mapsto> get_list d k @ [v])"

text \<open>
  \<open>compare(obj1, obj2)\<close>.  The two divisions raise \<open>ZeroDivisionError\<close> on a zero
  divisor, and subscripting an \<open>overlap\<close> that is still \<open>None\<close> raises \<open>TypeError\<close>.
\<close>

definition compare :: "addr \<Rightarrow> addr \<Rightarrow> heap \<Rightarrow> error + heap" where
  "compare obj1 obj2 hp =
     (let o1 = hp obj1; o2 = hp obj2
      in if has_intersection o1 o2 then
           (let center1 = center_is_inside o1 o2;
                center2 = center_is_inside o2 o1;
                inside1 = is_inside o1 o2;
                inside2 = is_inside o2 o1;
                inter = intersection_area o1 o2
            in if fsub (fadd (area o1) (area o2)) inter = 0 then Inl ZeroDivisionError
               else if min (area o1) (area o2) = 0 then Inl ZeroDivisionError
               else
                 (let iou_v = rn (fdiv inter (fsub (fadd (area o1) (area o2)) inter));
                      iom_v = rn (fdiv inter (min (area o1) (area o2)))
                  in case overlap o1 of
                       None \<Rightarrow> Inl TypeError
                     | Some ov1 \<Rightarrow>
                         (let hp1 = hp(obj1 := o1\<lparr> overlap := Some (append_to ov1 (label o2)
                                      \<lparr> index = idx o2,
                                        self_inside_other = inside1, center_of_self = center1,
                                        other_inside_self = inside2, center_of_other = center2,
                                        intersection = rn inter,
                                        iou = iou_v, iom = iom_v, obj = obj2 \<rparr>) \<rparr>)
                          in case overlap (hp1 obj2) of
                               None \<Rightarrow> Inl TypeError
                             | Some ov2 \<Rightarrow>
                                 Inr (hp1(obj2 := (hp1 obj2)\<lparr> overlap :=
                                      Some (append_to ov2 (label o1)
                                      \<lparr> index = idx o1,
                                        self_inside_other = inside2, center_of_self = center2,
                                        other_inside_self = inside1, center_of_other = center1,
                                        intersection = rn inter,
                                        iou = iou_v, iom = iom_v, obj = obj1 \<rparr>) \<rparr>)))))
         else Inr hp)"

text \<open>The inner loop \<open>for idx2 in range(idx1+1, len(flat))\<close>, over the rest of \<open>flat\<close>.\<close>

fun compare_with :: "addr \<Rightarrow> addr list \<Rightarrow> heap \<Rightarrow> error + heap" where
  "compare_with a [] hp = Inr hp"
| "compare_with a (b # bs) hp =
     (case compare a b hp of Inl e \<Rightarrow> Inl e | Inr hp' \<Rightarrow> compare_with a bs hp')"

text \<open>The outer loop \<open>for idx1 in range(len(flat)-1)\<close>.\<close>

fun compare_all :: "addr list \<Rightarrow> heap \<Rightarrow> error + heap" where
  "compare_all [] hp = Inr hp"
| "compare_all (a # as) hp =
     (case compare_with a as hp of Inl e \<Rightarrow> Inl e | Inr hp' \<Rightarrow> compare_all as hp')"

definition flat_of :: "object_dict \<Rightarrow> addr list" where
  "flat_of d = concat (map snd d)"

definition reset_overlap :: "addr \<Rightarrow> heap \<Rightarrow> heap" where
  "reset_overlap a hp = hp(a := (hp a)\<lparr> overlap := Some Map.empty \<rparr>)"

text \<open>The body of the loop over images in \<open>find_overlapping_objects\<close>.\<close>

definition overlap_image :: "object_dict \<Rightarrow> heap \<Rightarrow> error + heap" where
  "overlap_image d hp = compare_all (flat_of d) (fold reset_overlap (flat_of d) hp)"

fun find_overlapping_objects :: "collection \<Rightarrow> heap \<Rightarrow> error + heap" where
  "find_overlapping_objects [] hp = Inr hp"
| "find_overlapping_objects ((i, d) # r) hp =
     (case overlap_image d hp of Inl e \<Rightarrow> Inl e | Inr hp' \<Rightarrow> find_overlapping_objects r hp')"

section \<open>Duplicates\<close>

text \<open>
  \<open>redundant_and_not_last\<close>: \<open>self.overlap.get\<close> on an \<open>overlap\<close> that is \<open>None\<close>
  raises \<open>AttributeError\<close>; a missing or empty list gives \<open>False\<close>; otherwise the loop
  returns \<open>True\<close> at the first fact that passes the test.
\<close>

definition redundant_and_not_last :: "HierObject \<Rightarrow> rat \<Rightarrow> error + bool" where
  "redundant_and_not_last self threshold =
     (case overlap self of
        None \<Rightarrow> Inl AttributeError
      | Some ov \<Rightarrow>
          (case ov (label self) of
             None \<Rightarrow> Inr False
           | Some over \<Rightarrow>
               Inr (list_ex (\<lambda>other. threshold < iou other \<and> idx self < index other) over)))"

text \<open>The loop over one list of objects in \<open>find_duplicates\<close>, default threshold 0.5.\<close>

fun duplicates_list :: "addr list \<Rightarrow> heap \<Rightarrow> error + heap" where
  "duplicates_list [] hp = Inr hp"
| "duplicates_list (a # as) hp =
     (case redundant_and_not_last (hp a) (1 / 2) of
        Inl e \<Rightarrow> Inl e
      | Inr b \<Rightarrow> duplicates_list as (hp(a := (hp a)\<lparr> duplicate := Some b \<rparr>)))"

fun find_duplicates :: "collection \<Rightarrow> heap \<Rightarrow> error + heap" where
  "find_duplicates [] hp = Inr hp"
| "find_duplicates ((i, d) # r) hp =
     (case duplicates_list (flat_of d) hp of
        Inl e \<Rightarrow> Inl e
      | Inr hp' \<Rightarrow> find_duplicates r hp')"

section \<open>Parents\<close>

text \<open>
  The sort key of \<open>sort_for_parent\<close>, a tuple compared lexicographically, and
  \<open>sorted(..., reverse=True, key=...)\<close>, which is stable: elements with equal keys
  keep their order.
\<close>

definition parent_key :: "Overlap \<Rightarrow> int \<times> int \<times> rat" where
  "parent_key x =
     ((if self_inside_other x then 1 else 0), (if center_of_self x then 1 else 0), iom x)"

definition sorted_reverse :: "('a \<Rightarrow> 'k::linorder) \<Rightarrow> 'a list \<Rightarrow> 'a list" where
  "sorted_reverse key xs = rev (sort_key key (rev xs))"

definition sort_for_parent :: "Overlap list \<Rightarrow> Overlap list" where
  "sort_for_parent overlap_list = sorted_reverse parent_key overlap_list"

definition sort_iou :: "Overlap list \<Rightarrow> Overlap list" where
  "sort_iou overlap_list = sorted_reverse iou overlap_list"

text \<open>Truth value of an attribute that is \<open>None\<close>, \<open>True\<close> or \<open>False\<close>.\<close>

definition truthy :: "bool option \<Rightarrow> bool" where
  "truthy b = (b = Some True)"

text \<open>The first loop of \<open>find_parent\<close>: every object of the parent class gets a
  \<open>children\<close> dict if it has none.\<close>

definition init_children :: "addr \<Rightarrow> heap \<Rightarrow> heap" where
  "init_children p hp =
     (if children (hp p) = None then hp(p := (hp p)\<lparr> children := Some Map.empty \<rparr>) else hp)"

text \<open>The candidate list built by the list comprehension of \<open>find_parent\<close>.\<close>

definition candidates :: "heap \<Rightarrow> (label \<rightharpoonup> Overlap list) \<Rightarrow> label \<Rightarrow> Overlap list" where
  "candidates hp ov parent_label =
     filter (\<lambda>over. center_of_self over \<and> \<not> truthy (duplicate (hp (obj over))))
       (get_list ov parent_label)"

text \<open>The narrowing of a candidate list of more than one element.\<close>

definition narrow :: "Overlap list \<Rightarrow> Overlap list" where
  "narrow parent_overlap_list =
     (if 1 < length parent_overlap_list then
        (let s = sort_for_parent parent_overlap_list
         in if self_inside_other (hd s) then filter self_inside_other s else s)
      else parent_overlap_list)"

text \<open>
  The body of the loop over the children.  Storing into a \<open>parent\<close> or a \<open>children\<close>
  that is \<open>None\<close> raises \<open>TypeError\<close>, reading \<open>overlap.get\<close> on \<open>None\<close> raises
  \<open>AttributeError\<close>.
\<close>

definition find_parent_child :: "label \<Rightarrow> label \<Rightarrow> addr \<Rightarrow> heap \<Rightarrow> error + heap" where
  "find_parent_child child_label parent_label child hp =
     (let hp1 = (if parent (hp child) = None
                 then hp(child := (hp child)\<lparr> parent := Some Map.empty \<rparr>) else hp)
      in if truthy (duplicate (hp1 child)) then Inr hp1
         else case overlap (hp1 child) of
                None \<Rightarrow> Inl AttributeError
              | Some ov \<Rightarrow>
                  (let parent_overlap_list = candidates hp1 ov parent_label
                   in if parent_overlap_list = [] then Inr hp1
                      else
                        (let pol = narrow parent_overlap_list
                         in if length pol = 1 then
                              (let p = obj (hd pol)
                               in case parent (hp1 child) of
                                    None \<Rightarrow> Inl TypeError
                                  | Some par \<Rightarrow>
                                      (let hp2 = hp1(child := (hp1 child)\<lparr> parent :=
                                                   Some (par(parent_label \<mapsto> idx (hp1 p))) \<rparr>)
                                       in case children (hp2 p) of
                                            None \<Rightarrow> Inl TypeError
                                          | Some ch \<Rightarrow>
                                              Inr (hp2(p := (hp2 p)\<lparr> children :=
                                                Some (append_to ch child_label
                                                        (idx (hp2 child))) \<rparr>))))
                            else Inr hp1)))"

fun parent_loop :: "label \<Rightarrow> label \<Rightarrow> addr list \<Rightarrow> heap \<Rightarrow> error + heap" where
  "parent_loop cl pl [] hp = Inr hp"
| "parent_loop cl pl (c # cs) hp =
     (case find_parent_child cl pl c hp of
        Inl e \<Rightarrow> Inl e
      | Inr hp' \<Rightarrow> parent_loop cl pl cs hp')"

text \<open>The body of the loop over images in \<open>find_parent\<close>; \<open>dict.get\<close> is \<open>map_of\<close>.\<close>

definition find_parent_image :: "label \<Rightarrow> label \<Rightarrow> object_dict \<Rightarrow> heap \<Rightarrow> error + heap" where
  "find_parent_image child_label parent_label d hp =
     (case map_of d child_label of
        None \<Rightarrow> Inr hp
      | Some child_list \<Rightarrow>
          if child_list = [] then Inr hp
          else case map_of d parent_label of
                 None \<Rightarrow> Inr hp
               | Some all_parent_class \<Rightarrow>
                   if all_parent_class = [] then Inr hp
                   else parent_loop child_label parent_label child_list
                          (fold init_children all_parent_class hp))"

fun find_parent :: "collection \<Rightarrow> label \<Rightarrow> label \<Rightarrow> heap \<Rightarrow> error + heap" where
  "find_parent [] cl pl hp = Inr hp"
| "find_parent ((i, d) # r) cl pl hp =
     (case find_parent_image cl pl d hp of
        Inl e \<Rightarrow> Inl e
      | Inr hp' \<Rightarrow> find_parent r cl pl hp')"

section \<open>Orchestration\<close>

fun find_parents :: "collection \<Rightarrow> (label \<times> label) list \<Rightarrow> heap \<Rightarrow> error + heap" where
  "find_parents c [] hp = Inr hp"
| "find_parents c ((cl, pl) # r) hp =
     (case find_parent c cl pl hp of Inl e \<Rightarrow> Inl e | Inr hp' \<Rightarrow> find_parents c r hp')"

definition get_hierarchy :: "collection \<Rightarrow> (label \<times> label) list \<Rightarrow> heap \<Rightarrow> error + heap" where
  "get_hierarchy all_obj child_parent_list hp =
     (case find_overlapping_objects all_obj hp of
        Inl e \<Rightarrow> Inl e
      | Inr hp1 \<Rightarrow>
          (case find_duplicates all_obj hp1 of
             Inl e \<Rightarrow> Inl e
           | Inr hp2 \<Rightarrow> find_parents all_obj child_parent_list hp2))"

section \<open>Notions used in the statements\<close>

text \<open>The \<open>Overlap\<close> tuple that \<open>compare\<close> builds for \<open>self\<close> about \<open>other\<close>, which
  lives at address \<open>a\<close>.\<close>

definition fact_of :: "HierObject \<Rightarrow> HierObject \<Rightarrow> addr \<Rightarrow> Overlap" where
  "fact_of self other a =
     \<lparr> index = idx other,
       self_inside_other = is_inside self other,
       center_of_self = center_is_inside self other,
       other_inside_self = is_inside other self,
       center_of_other = center_is_inside other self,
       intersection = rn (intersection_area self other),
       iou = rn (fdiv (intersection_area self other)
                   (fsub (fadd (area self) (area other)) (intersection_area self other))),
       iom = rn (fdiv (intersection_area self other) (min (area self) (area other))),
       obj = a \<rparr>"

text \<open>The collection a constructor call with argument \<open>all_obj\<close> works on; the default
  collection has no bucket while it has not been created.\<close>

definition the_all :: "cid option \<Rightarrow> world \<Rightarrow> collection" where
  "the_all all_obj wd =
     (case all_obj of
        Some c \<Rightarrow> colls wd c
      | None \<Rightarrow> (case default_all wd of Some c \<Rightarrow> colls wd c | None \<Rightarrow> []))"

text \<open>The interpreter before any object exists, and the construction of a list of rows
  in the default collection, skipping nothing.\<close>

definition empty_world :: world where
  "empty_world =
     \<lparr> heap = (\<lambda>_. blank), nxt = 0, colls = (\<lambda>_. []), ncoll = 0, default_all = None \<rparr>"

definition construct :: "row list \<Rightarrow> world \<Rightarrow> world" where
  "construct rs wd = fold (\<lambda>r wd'. fst (HierObject_init r None wd')) rs wd"

text \<open>The three objects of the example at the end of the source file.\<close>

definition hobj1_row :: row where
  "hobj1_row = \<lparr> ImageID = ''i1'', LabelName = ''Object'',
                  XMin = 2 / 10, XMax = 4 / 10, YMin = 3 / 10, YMax = 5 / 10 \<rparr>"

definition hobj2_row :: row where
  "hobj2_row = \<lparr> ImageID = ''i1'', LabelName = ''Object'',
                  XMin = 1 / 10, XMax = 3 / 10, YMin = 4 / 10, YMax = 8 / 10 \<rparr>"

definition hobj3_row :: row where
  "hobj3_row = \<lparr> ImageID = ''i1'', LabelName = ''Group'',
                  XMin = 1 / 10, XMax = 5 / 10, YMin = 1 / 10, YMax = 5 / 10 \<rparr>"

definition example_world :: world where
  "example_world = construct [hobj1_row, hobj2_row, hobj3_row] empty_world"

text \<open>A box that touches the first example object along its right edge, and an
  inverted box.\<close>

definition touching_row :: row where
  "touching_row = \<lparr> ImageID = ''i1'', LabelName = ''Object'',
                     XMin = 4 / 10, XMax = 6 / 10, YMin = 3 / 10, YMax = 5 / 10 \<rparr>"

definition inverted_row :: row where
  "inverted_row = \<lparr> ImageID = ''i1'', LabelName = ''Object'',
                     XMin = 4 / 10, XMax = 2 / 10, YMin = 3 / 10, YMax = 5 / 10 \<rparr>"

definition touching_world :: world where
  "touching_world = construct [hobj1_row, touching_row] empty_world"

text \<open>Every address of a collection, in the order the passes visit them.\<close>

definition all_addrs :: "collection \<Rightarrow> addr list" where
  "all_addrs c = concat (map (\<lambda>(i, d). flat_of d) c)"

text \<open>The overlap facts an object holds under its own label, and the condition for
  being a duplicate as the specification words it: some fact under the own label has an
  \<open>iou\<close> above 0.5 and the index of an object that comes later.\<close>

definition same_label_facts :: "HierObject \<Rightarrow> Overlap list" where
  "same_label_facts ob =
     (case overlap ob of None \<Rightarrow> [] | Some ov \<Rightarrow> get_list ov (label ob))"

definition has_later_twin :: "HierObject \<Rightarrow> bool" where
  "has_later_twin ob =
     (\<exists>f \<in> set (same_label_facts ob). 1 / 2 < iou f \<and> idx ob < index f)"






text \<open>A thin box far from the origin: \<open>XMin = 10000000\<close>, \<open>XMax = 10000000.00001\<close>,
  \<open>YMin = 0\<close>, \<open>YMax = 1\<close>.\<close>

definition far_row :: row where
  "far_row = \<lparr> ImageID = ''i1'', LabelName = ''Object'',
                XMin = 10000000, XMax = 1000000000001 / 100000, YMin = 0, YMax = 1 \<rparr>"




section \<open>Notions for the parent assignment\<close>

text \<open>The \<open>parent\<close> and \<open>children\<close> dicts of an object read as maps, an unset attribute
  having no entry; and the facts an object holds under a label.\<close>

definition parent_map :: "HierObject \<Rightarrow> (label \<rightharpoonup> nat)" where
  "parent_map ob = (case parent ob of None \<Rightarrow> Map.empty | Some m \<Rightarrow> m)"

definition children_map :: "HierObject \<Rightarrow> (label \<rightharpoonup> nat list)" where
  "children_map ob = (case children ob of None \<Rightarrow> Map.empty | Some m \<Rightarrow> m)"

definition facts_under :: "HierObject \<Rightarrow> label \<Rightarrow> Overlap list" where
  "facts_under ob l = (case overlap ob of None \<Rightarrow> [] | Some ov \<Rightarrow> get_list ov l)"

text \<open>The candidate list of the child at \<open>c\<close> after the narrowing step of
  \<open>find_parent\<close>.\<close>

definition chosen :: "heap \<Rightarrow> label \<Rightarrow> addr \<Rightarrow> Overlap list" where
  "chosen hp pl c =
     (case overlap (hp c) of None \<Rightarrow> [] | Some ov \<Rightarrow> narrow (candidates hp ov pl))"

text \<open>The two writes of \<open>find_parent\<close> on a child: the \<open>parent\<close> dict is created when it
  is unset, and an assignment enters the parent's index for the child and appends the
  child's index to the parent's list.\<close>

definition ensure_parent :: "addr \<Rightarrow> heap \<Rightarrow> heap" where
  "ensure_parent c hp = hp(c := (hp c)\<lparr> parent := Some (parent_map (hp c)) \<rparr>)"

definition assign :: "label \<Rightarrow> label \<Rightarrow> addr \<Rightarrow> addr \<Rightarrow> heap \<Rightarrow> heap" where
  "assign cl pl c p hp =
     (let hp2 = hp(c := (hp c)\<lparr> parent := Some ((parent_map (hp c))(pl \<mapsto> idx (hp p))) \<rparr>)
      in hp2(p := (hp2 p)\<lparr> children :=
               Some (append_to (children_map (hp2 p)) cl (idx (hp c))) \<rparr>))"

text \<open>An object without its \<open>parent\<close> and \<open>children\<close> attributes: the geometry, the
  label, the index, the overlap facts and the duplicate flag.\<close>

definition core_of :: "HierObject \<Rightarrow> HierObject" where
  "core_of ob = ob\<lparr> parent := None, children := None \<rparr>"

text \<open>A heap as the constructor leaves it, no object with a \<open>parent\<close> or a \<open>children\<close>
  attribute; and a heap in which no flagged object has a parent entry or a child.\<close>

definition fresh :: "heap \<Rightarrow> bool" where
  "fresh hp = (\<forall>a. parent (hp a) = None \<and> children (hp a) = None)"

definition dup_unlinked :: "heap \<Rightarrow> bool" where
  "dup_unlinked hp =
     (\<forall>a. truthy (duplicate (hp a)) \<longrightarrow>
            parent_map (hp a) = Map.empty \<and> children_map (hp a) = Map.empty)"

text \<open>Two groups of one image that overlap by more than a half, an object whose
  centre lies in the first group only, and an object inside both.\<close>

definition groupA_row :: row where
  "groupA_row = \<lparr> ImageID = ''i1'', LabelName = ''Group'',
                   XMin = 10 / 100, XMax = 50 / 100, YMin = 10 / 100, YMax = 50 / 100 \<rparr>"

definition groupB_row :: row where
  "groupB_row = \<lparr> ImageID = ''i1'', LabelName = ''Group'',
                   XMin = 12 / 100, XMax = 50 / 100, YMin = 10 / 100, YMax = 50 / 100 \<rparr>"

definition edge_row :: row where
  "edge_row = \<lparr> ImageID = ''i1'', LabelName = ''Object'',
                 XMin = 10 / 100, XMax = 12 / 100, YMin = 20 / 100, YMax = 30 / 100 \<rparr>"

definition inner_row :: row where
  "inner_row = \<lparr> ImageID = ''i1'', LabelName = ''Object'',
                  XMin = 20 / 100, XMax = 30 / 100, YMin = 20 / 100, YMax = 30 / 100 \<rparr>"

definition twin_world :: world where
  "twin_world = construct [groupA_row, groupB_row, edge_row, inner_row] empty_world"

definition twin_result :: heap where
  "twin_result =
     projr (get_hierarchy (the_all None twin_world) [(''Object'', ''Group'')]
              (heap twin_world))"

section \<open>Floating point: the sign of a rounded number\<close>

lemma rne_frac_ge_div: "0 < b \<Longrightarrow> a div b \<le> rne_frac a b"
  by (simp add: rne_frac_def Let_def)

lemma rne_frac_pos:
  assumes "0 < b" "b \<le> a"
  shows "0 < rne_frac a b"
proof -
  have "0 < a div b" using assms by (simp add: pos_imp_zdiv_pos_iff)
  then have "1 \<le> a div b" by linarith
  with rne_frac_ge_div[OF assms(1), of a] show ?thesis by linarith
qed

lemma fl_exp_le: "fl_exp p q \<le> bitlen p - bitlen q - 52"
  by (simp add: fl_exp_def Let_def)

lemma pow_le_bitlen:
  assumes "0 < p" "int n + 1 \<le> bitlen p"
  shows "(2::int) ^ n \<le> p"
proof -
  have "n \<le> nat (bitlen p - 1)" using assms(2) by linarith
  then have "(2::int) ^ n \<le> 2 ^ nat (bitlen p - 1)"
    by (simp add: power_increasing)
  with bitlen_bounds[OF assms(1)] show ?thesis by linarith
qed

lemma less_pow_bitlen:
  assumes "0 < q" "bitlen q \<le> int n"
  shows "q < (2::int) ^ n"
proof -
  have "nat (bitlen q) \<le> n" using assms(2) by linarith
  then have "(2::int) ^ nat (bitlen q) \<le> 2 ^ n"
    by (simp add: power_increasing)
  with bitlen_bounds[OF assms(1)] show ?thesis by linarith
qed

text \<open>The mantissa of a positive number is positive: rounding never reaches zero.\<close>

lemma fl_man_pos:
  assumes "0 < p" "0 < q" "e \<le> bitlen p - bitlen q - 52"
  shows "0 < fl_man p q e"
proof (cases "0 \<le> e")
  case True
  have bq: "0 \<le> bitlen q" by (rule bitlen_nonneg)
  define n where "n = nat (bitlen q) + nat e"
  have "int n + 1 \<le> bitlen p" using assms(3) True bq by (simp add: n_def)
  then have 1: "(2::int) ^ n \<le> p" by (rule pow_le_bitlen[OF assms(1)])
  have "q < (2::int) ^ nat (bitlen q)"
    by (rule less_pow_bitlen[OF assms(2)]) (use bq in simp)
  then have "q * 2 ^ nat e \<le> 2 ^ nat (bitlen q) * 2 ^ nat e"
    by (simp add: mult_right_mono)
  also have "\<dots> = 2 ^ n" by (simp add: n_def power_add)
  finally have "q * 2 ^ nat e \<le> p" using 1 by linarith
  moreover have "0 < q * 2 ^ nat e" using assms(2) by simp
  ultimately show ?thesis using True by (simp add: fl_man_def rne_frac_pos)
next
  case False
  have bp: "0 \<le> bitlen p" by (rule bitlen_nonneg)
  have "bitlen p \<noteq> 0" using assms(1) by (simp add: bitlen_eq_zero_iff)
  with bp have bp1: "1 \<le> bitlen p" by linarith
  define n where "n = nat (bitlen p - 1) + nat (- e)"
  have "bitlen q \<le> int n" using assms(3) False bp1 by (simp add: n_def)
  then have 1: "q < (2::int) ^ n" by (rule less_pow_bitlen[OF assms(2)])
  have "(2::int) ^ nat (bitlen p - 1) \<le> p" using bitlen_bounds[OF assms(1)] by simp
  then have "2 ^ nat (bitlen p - 1) * 2 ^ nat (- e) \<le> p * 2 ^ nat (- e)"
    by (simp add: mult_right_mono)
  then have "2 ^ n \<le> p * 2 ^ nat (- e)" by (simp add: n_def power_add)
  with 1 have "q \<le> p * 2 ^ nat (- e)" by linarith
  with assms(2) False show ?thesis by (simp add: fl_man_def rne_frac_pos)
qed

lemma scale2_pos: "0 < m \<Longrightarrow> 0 < scale2 m e"
  by (simp add: scale2_def)

lemma fl_abs_pos:
  assumes "x \<noteq> 0"
  shows "0 < (case quotient_of \<bar>x\<bar> of
               (p, q) \<Rightarrow> scale2 (fl_man p q (fl_exp p q)) (fl_exp p q))"
proof -
  obtain p q where pq: "quotient_of \<bar>x\<bar> = (p, q)" by (cases "quotient_of \<bar>x\<bar>")
  have q: "0 < q" using quotient_of_denom_pos[OF pq] .
  have "\<bar>x\<bar> = of_int p / of_int q" using quotient_of_div[OF pq] .
  moreover have "0 < \<bar>x\<bar>" using assms by simp
  ultimately have p: "0 < p" using q by (simp add: zero_less_divide_iff)
  show ?thesis
    unfolding pq by (simp add: scale2_pos fl_man_pos[OF p q fl_exp_le])
qed

text \<open>Rounding to the nearest float keeps the sign.\<close>

lemma fl_sgn: "sgn (fl x) = sgn x"
proof (cases "x = 0")
  case True
  then show ?thesis by (simp add: fl_def)
next
  case False
  from fl_abs_pos[OF False] show ?thesis
    by (simp add: fl_def Let_def sgn_mult split: prod.splits)
qed

lemma fl_pos_iff [simp]: "0 < fl x \<longleftrightarrow> 0 < x"
  using fl_sgn[of x] by (metis sgn_greater)

lemma fl_neg_iff [simp]: "fl x < 0 \<longleftrightarrow> x < 0"
  using fl_sgn[of x] by (metis sgn_less)

lemma fl_zero_iff [simp]: "fl x = 0 \<longleftrightarrow> x = 0"
  using fl_sgn[of x] by (metis sgn_eq_0_iff)

lemma fl_le_zero_iff [simp]: "fl x \<le> 0 \<longleftrightarrow> x \<le> 0"
  using fl_pos_iff[of x] by (simp only: not_less[symmetric])

section \<open>Construction\<close>

lemma parse_cases:
  "parse s r =
     (if 0 < rn (fsub (rn (fl (XMax r))) (rn (fl (XMin r))))
         \<and> 0 < rn (fsub (rn (fl (YMax r))) (rn (fl (YMin r))))
      then Inr (s\<lparr> label := LabelName r, imageID := ImageID r, x0 := rn (fl (XMin r)),
                   x1 := rn (fl (XMax r)), y0 := rn (fl (YMin r)), y1 := rn (fl (YMax r)),
                   w := rn (fsub (rn (fl (XMax r))) (rn (fl (XMin r)))),
                   h := rn (fsub (rn (fl (YMax r))) (rn (fl (YMin r)))) \<rparr>)
      else Inl AssertionError)"
  by (simp add: parse_def Let_def)

lemma fmul_pos: "0 < a \<Longrightarrow> 0 < b \<Longrightarrow> 0 < fmul a b"
  by (simp add: fmul_def)

lemma init_fail_iff:
  "(snd (HierObject_init r all_obj wd) = Inl AssertionError) =
     (\<not> (0 < rn (fsub (rn (fl (XMax r))) (rn (fl (XMin r))))
         \<and> 0 < rn (fsub (rn (fl (YMax r))) (rn (fl (YMin r))))))"
  by (auto simp: HierObject_init_def parse_cases Let_def fmul_pos split: prod.splits)

lemma init_ok_iff:
  "(\<exists>a. snd (HierObject_init r all_obj wd) = Inr a) =
     (0 < rn (fsub (rn (fl (XMax r))) (rn (fl (XMin r))))
      \<and> 0 < rn (fsub (rn (fl (YMax r))) (rn (fl (YMin r)))))"
  by (auto simp: HierObject_init_def parse_cases Let_def fmul_pos split: prod.splits)

text \<open>
  Claim C8.  The constructor raises \<open>AssertionError\<close> when the rounded width
  \<open>rn (x1 - x0)\<close> of the rounded bounds, the rounded height or the area, their product,
  is not strictly positive; when width and height are strictly positive it returns the
  new object.
\<close>

theorem construct_validation:
  fixes r :: row
  defines "wv \<equiv> rn (fsub (rn (fl (XMax r))) (rn (fl (XMin r))))"
    and "hv \<equiv> rn (fsub (rn (fl (YMax r))) (rn (fl (YMin r))))"
  shows "(wv \<le> 0 \<or> hv \<le> 0 \<or> fmul wv hv \<le> 0
            \<longrightarrow> snd (HierObject_init r all_obj wd) = Inl AssertionError)
       \<and> (0 < wv \<and> 0 < hv \<longrightarrow> (\<exists>a. snd (HierObject_init r all_obj wd) = Inr a))"
proof -
  have "fmul wv hv \<le> 0 \<Longrightarrow> \<not> (0 < wv \<and> 0 < hv)"
    using fmul_pos[of wv hv] by auto
  then show ?thesis
    using init_fail_iff[of r all_obj wd] init_ok_iff[of r all_obj wd]
    unfolding wv_def hv_def by auto
qed

theorem construct_validation_witness:
  "rn (fsub (rn (fl (XMax inverted_row))) (rn (fl (XMin inverted_row)))) \<le> 0
   \<and> snd (HierObject_init inverted_row None example_world) = Inl AssertionError
   \<and> 0 < rn (fsub (rn (fl (XMax hobj1_row))) (rn (fl (XMin hobj1_row))))
   \<and> 0 < rn (fsub (rn (fl (YMax hobj1_row))) (rn (fl (YMin hobj1_row))))
   \<and> (\<exists>a. snd (HierObject_init hobj1_row None example_world) = Inr a)"
proof -
  have 1: "rn (fsub (rn (fl (XMax inverted_row))) (rn (fl (XMin inverted_row)))) \<le> 0"
    by code_simp
  have 2: "0 < rn (fsub (rn (fl (XMax hobj1_row))) (rn (fl (XMin hobj1_row))))"
    by code_simp
  have 3: "0 < rn (fsub (rn (fl (YMax hobj1_row))) (rn (fl (YMin hobj1_row))))"
    by code_simp
  from 1 2 3 construct_validation[of inverted_row None example_world]
    construct_validation[of hobj1_row None example_world]
  show ?thesis by blast
qed

text \<open>The collection of the example, evaluated once.\<close>

lemma example_collection:
  "the_all None example_world = [(''i1'', [(''Object'', [0, 1]), (''Group'', [2])])]"
  by code_simp

text \<open>
  Claim C9.  A constructor call that raises leaves the heap, and so every index, as it
  was, and the collection it works on has the buckets it had: nothing is appended.  The
  whole interpreter state is unchanged, except that a call without \<open>all_obj\<close> made while
  \<open>default_all\<close> is \<open>None\<close> has created the default collection, empty, before it parsed
  the row.
\<close>

theorem failed_construction_keeps_collection:
  assumes "snd (HierObject_init r all_obj wd) = Inl e"
  shows "heap (fst (HierObject_init r all_obj wd)) = heap wd
       \<and> nxt (fst (HierObject_init r all_obj wd)) = nxt wd
       \<and> the_all all_obj (fst (HierObject_init r all_obj wd)) = the_all all_obj wd
       \<and> fst (HierObject_init r all_obj wd) =
           (if all_obj = None \<and> default_all wd = None
            then (snd (create_all_dict wd))\<lparr> default_all := Some (ncoll wd) \<rparr> else wd)"
proof -
  have st: "fst (HierObject_init r all_obj wd) =
           (if all_obj = None \<and> default_all wd = None
            then (snd (create_all_dict wd))\<lparr> default_all := Some (ncoll wd) \<rparr> else wd)"
    using assms
    by (auto simp: HierObject_init_def parse_cases Let_def create_all_dict_def
        split: prod.splits option.splits if_splits)
  show ?thesis
    unfolding st by (simp add: create_all_dict_def the_all_def)
qed

theorem failed_construction_keeps_collection_witness:
  "snd (HierObject_init inverted_row None example_world) = Inl AssertionError
   \<and> the_all None (fst (HierObject_init inverted_row None example_world))
       = [(''i1'', [(''Object'', [0, 1]), (''Group'', [2])])]
   \<and> the_all None example_world = [(''i1'', [(''Object'', [0, 1]), (''Group'', [2])])]
   \<and> heap (fst (HierObject_init inverted_row None example_world)) = heap example_world"
proof -
  have "\<not> (0 < rn (fsub (rn (fl (XMax inverted_row))) (rn (fl (XMin inverted_row))))
           \<and> 0 < rn (fsub (rn (fl (YMax inverted_row))) (rn (fl (YMin inverted_row)))))"
    by code_simp
  then have 1: "snd (HierObject_init inverted_row None example_world) = Inl AssertionError"
    using init_fail_iff[of inverted_row None example_world] by blast
  note 2 = example_collection
  from failed_construction_keeps_collection[OF 1]
  have "heap (fst (HierObject_init inverted_row None example_world)) = heap example_world"
    and "the_all None (fst (HierObject_init inverted_row None example_world))
           = the_all None example_world"
    by blast+
  with 1 2 show ?thesis by simp
qed

section \<open>Comparing two objects\<close>

lemma has_intersection_sym: "has_intersection a b = has_intersection b a"
  by (auto simp: has_intersection_def Let_def min.commute max.commute)


text \<open>
  Claim C7.  When the overlap width or the overlap height of two objects is not strictly
  positive, \<open>compare\<close> returns the heap it was given: no object gains an overlap fact.
  The float difference has the sign of the exact difference.
\<close>

theorem compare_no_intersection:
  assumes "min (x1 (hp a)) (x1 (hp b)) - max (x0 (hp a)) (x0 (hp b)) \<le> 0
           \<or> min (y1 (hp a)) (y1 (hp b)) - max (y0 (hp a)) (y0 (hp b)) \<le> 0"
  shows "compare a b hp = Inr hp"
proof -
  have "\<not> has_intersection (hp a) (hp b)"
    using assms unfolding has_intersection_def Let_def fsub_def
    by (auto simp: not_less)
  then show ?thesis by (simp add: compare_def Let_def)
qed

theorem compare_no_intersection_witness:
  "(let hp = heap touching_world
    in min (x1 (hp 0)) (x1 (hp 1)) - max (x0 (hp 0)) (x0 (hp 1)) \<le> 0)
   \<and> compare 0 1 (heap touching_world) = Inr (heap touching_world)"
proof -
  have hy: "let hp = heap touching_world
            in min (x1 (hp 0)) (x1 (hp 1)) - max (x0 (hp 0)) (x0 (hp 1)) \<le> 0"
    by code_simp
  then have "min (x1 (heap touching_world 0)) (x1 (heap touching_world 1))
      - max (x0 (heap touching_world 0)) (x0 (heap touching_world 1)) \<le> 0"
    by (simp only: Let_def)
  with hy compare_no_intersection[of "heap touching_world" 0 1] show ?thesis by blast
qed

text \<open>
  Claim C6, which the code does not keep.  Two objects are constructed from the same
  thin box far from the origin.  Both constructor calls succeed; the width stored is the
  rounded \<open>0.00001\<close> and the area its product with the height, while \<open>compare\<close> takes the
  intersection from the unrounded difference of the bounds, which is larger.  The fact
  stored on the first object has \<open>iou = 1.00011\<close> and \<open>iom = 1.00005\<close>, both above 1.
\<close>

theorem compare_ratio_above_one:
  "let wd = construct [far_row, far_row] empty_world;
       c = the_all None wd
   in c = [(''i1'', [(''Object'', [0, 1])])]
      \<and> (case find_overlapping_objects c (heap wd) of
            Inl e \<Rightarrow> False
          | Inr hp \<Rightarrow>
              map (\<lambda>f. (iou f, iom f)) (same_label_facts (hp 0))
                = [(fl (100011 / 100000), fl (100005 / 100000))]
              \<and> map (\<lambda>f. (iou f, iom f)) (same_label_facts (hp 1))
                = [(fl (100011 / 100000), fl (100005 / 100000))]
              \<and> 1 < fl (100011 / 100000) \<and> 1 < fl (100005 / 100000))"
  by code_simp

section \<open>Duplicate flags\<close>


lemma has_later_twin_dup [simp]: "has_later_twin (ob\<lparr> duplicate := d \<rparr>) = has_later_twin ob"
  by (simp add: has_later_twin_def same_label_facts_def)


lemma duplicates_list_append:
  "duplicates_list (xs @ ys) hp =
     (case duplicates_list xs hp of Inl e \<Rightarrow> Inl e | Inr hp' \<Rightarrow> duplicates_list ys hp')"
  by (induction xs arbitrary: hp) (auto split: sum.splits)

lemma find_duplicates_flat: "find_duplicates c hp = duplicates_list (all_addrs c) hp"
  by (induction c arbitrary: hp)
     (auto simp: all_addrs_def duplicates_list_append split: sum.splits)


section \<open>Two rows through the overlap pass and the duplicate pass\<close>











lemma has_intersection_overlap [simp]:
  "has_intersection (a\<lparr> overlap := v \<rparr>) b = has_intersection a b"
  "has_intersection a (b\<lparr> overlap := v \<rparr>) = has_intersection a b"
  by (simp_all add: has_intersection_def)

lemma intersection_area_overlap [simp]:
  "intersection_area (a\<lparr> overlap := v \<rparr>) b = intersection_area a b"
  "intersection_area a (b\<lparr> overlap := v \<rparr>) = intersection_area a b"
  by (simp_all add: intersection_area_def)

lemma fact_of_overlap [simp]:
  "fact_of (a\<lparr> overlap := v \<rparr>) b k = fact_of a b k"
  "fact_of a (b\<lparr> overlap := v \<rparr>) k = fact_of a b k"
  by (simp_all add: fact_of_def is_inside_def center_is_inside_def)





lemma same_label_facts_dup [simp]:
  "same_label_facts (ob\<lparr> duplicate := d \<rparr>) = same_label_facts ob"
  by (cases "overlap ob") (simp_all add: same_label_facts_def)




section \<open>Sorting and narrowing the candidates\<close>

lemma set_sorted_reverse [simp]: "set (sorted_reverse k xs) = set xs"
  by (simp add: sorted_reverse_def)

lemma length_sorted_reverse [simp]: "length (sorted_reverse k xs) = length xs"
  by (simp add: sorted_reverse_def)

lemma mset_sorted_reverse [simp]: "mset (sorted_reverse k xs) = mset xs"
  by (simp add: sorted_reverse_def)

lemma sorted_reverse_descending:
  "sorted_wrt (\<lambda>a b. k b \<le> k a) (sorted_reverse k xs)"
proof -
  have "sorted (map k (sort_key k (rev xs)))" by simp
  then have "sorted_wrt (\<lambda>a b. k a \<le> k b) (sort_key k (rev xs))"
    by (simp add: sorted_map)
  then show ?thesis
    by (simp add: sorted_reverse_def sorted_wrt_rev)
qed

lemma hd_sorted_reverse_max:
  assumes "x \<in> set xs"
  shows "k x \<le> k (hd (sorted_reverse k xs))"
proof -
  let ?s = "sorted_reverse k xs"
  have ne: "?s \<noteq> []" using assms by (metis empty_iff list.set(1) set_sorted_reverse)
  then obtain y ys where s: "?s = y # ys" by (cases ?s) auto
  have "x \<in> set ?s" using assms by simp
  then show ?thesis
    using sorted_reverse_descending[of k xs] unfolding s by auto
qed

lemma parent_key_inside:
  "parent_key a \<le> parent_key b \<Longrightarrow> self_inside_other a \<Longrightarrow> self_inside_other b"
  by (auto simp: parent_key_def less_eq_prod_def split: if_splits)

lemma hd_sort_for_parent_inside:
  assumes "xs \<noteq> []"
  shows "self_inside_other (hd (sort_for_parent xs)) = (\<exists>x\<in>set xs. self_inside_other x)"
proof
  assume "self_inside_other (hd (sort_for_parent xs))"
  moreover have "hd (sort_for_parent xs) \<in> set xs"
    using assms by (metis hd_in_set length_0_conv length_sorted_reverse set_sorted_reverse
        sort_for_parent_def)
  ultimately show "\<exists>x\<in>set xs. self_inside_other x" by blast
next
  assume "\<exists>x\<in>set xs. self_inside_other x"
  then obtain x where x: "x \<in> set xs" "self_inside_other x" by blast
  from hd_sorted_reverse_max[OF x(1), of parent_key] x(2)
  show "self_inside_other (hd (sort_for_parent xs))"
    unfolding sort_for_parent_def by (rule parent_key_inside)
qed

lemma set_narrow:
  "set (narrow xs) =
     (if 1 < length xs \<and> (\<exists>x\<in>set xs. self_inside_other x)
      then {x \<in> set xs. self_inside_other x} else set xs)"
proof (cases "1 < length xs")
  case True
  then have "xs \<noteq> []" by auto
  from hd_sort_for_parent_inside[OF this] True show ?thesis
    by (auto simp: narrow_def Let_def sort_for_parent_def)
next
  case False
  then show ?thesis by (simp add: narrow_def)
qed

lemma set_narrow_subset: "set (narrow xs) \<subseteq> set xs"
  by (auto simp: set_narrow split: if_splits)

lemma mset_narrow:
  "mset (narrow xs) =
     (if 1 < length xs \<and> (\<exists>x\<in>set xs. self_inside_other x)
      then filter_mset self_inside_other (mset xs) else mset xs)"
proof (cases "1 < length xs")
  case True
  then have "xs \<noteq> []" by auto
  from hd_sort_for_parent_inside[OF this] True show ?thesis
    by (auto simp: narrow_def Let_def sort_for_parent_def)
next
  case False
  then show ?thesis by (simp add: narrow_def)
qed

lemma narrow_nonempty: "xs \<noteq> [] \<Longrightarrow> narrow xs \<noteq> []"
proof -
  assume ne: "xs \<noteq> []"
  have "set (narrow xs) \<noteq> {}"
    unfolding set_narrow using ne by auto
  then show ?thesis by auto
qed

section \<open>One child of \<open>find_parent\<close>\<close>

lemma ensure_parent_alt:
  "(if parent (hp c) = None then hp(c := (hp c)\<lparr> parent := Some Map.empty \<rparr>) else hp)
     = ensure_parent c hp"
proof (cases "parent (hp c)")
  case None
  then show ?thesis by (simp add: ensure_parent_def parent_map_def)
next
  case (Some m)
  then have "(hp c)\<lparr> parent := Some m \<rparr> = hp c"
    by (metis HierObject.surjective HierObject.update_convs(16))
  then have "hp(c := (hp c)\<lparr> parent := Some m \<rparr>) = hp"
    by (simp only: fun_upd_triv)
  then show ?thesis
    using Some
    by (simp only: ensure_parent_def parent_map_def option.case option.distinct if_False)
qed

lemma candidates_ensure_parent [simp]:
  "candidates (ensure_parent c hp) ov pl = candidates hp ov pl"
  by (auto simp: candidates_def ensure_parent_def intro!: filter_cong)

lemma ensure_parent_fields [simp]:
  "overlap (ensure_parent c hp a) = overlap (hp a)"
  "duplicate (ensure_parent c hp a) = duplicate (hp a)"
  "children (ensure_parent c hp a) = children (hp a)"
  "idx (ensure_parent c hp a) = idx (hp a)"
  "parent (ensure_parent c hp c) = Some (parent_map (hp c))"
  by (simp_all add: ensure_parent_def)

lemma find_parent_child_dup:
  assumes "truthy (duplicate (hp c))"
  shows "find_parent_child cl pl c hp = Inr (ensure_parent c hp)"
  using assms
  unfolding find_parent_child_def ensure_parent_alt Let_def by simp

lemma find_parent_child_no_overlap:
  assumes "\<not> truthy (duplicate (hp c))" "overlap (hp c) = None"
  shows "find_parent_child cl pl c hp = Inl AttributeError"
  using assms
  unfolding find_parent_child_def ensure_parent_alt Let_def by simp

lemma assign_ensure:
  "(ensure_parent c hp)(c := (ensure_parent c hp c)\<lparr> parent := v \<rparr>)
     = hp(c := (hp c)\<lparr> parent := v \<rparr>)"
  by (simp add: ensure_parent_def)

lemma find_parent_child_step:
  assumes "\<not> truthy (duplicate (hp c))" "overlap (hp c) = Some ov"
  shows "find_parent_child cl pl c hp =
           (if length (chosen hp pl c) = 1 then
              (let p = obj (hd (chosen hp pl c));
                   hp2 = hp(c := (hp c)\<lparr> parent :=
                            Some ((parent_map (hp c))(pl \<mapsto> idx (hp p))) \<rparr>)
               in case children (hp2 p) of
                    None \<Rightarrow> Inl TypeError
                  | Some ch \<Rightarrow>
                      Inr (hp2(p := (hp2 p)\<lparr> children :=
                             Some (append_to ch cl (idx (hp c))) \<rparr>)))
            else Inr (ensure_parent c hp))"
proof -
  define s where "s = narrow (candidates hp ov pl)"
  define p where "p = obj (hd s)"
  define v where "v = Some ((parent_map (hp c))(pl \<mapsto> idx (hp p)))"
  have ch: "chosen hp pl c = s"
    by (simp add: chosen_def assms(2) s_def)
  have i: "idx ((hp(c := (hp c)\<lparr> parent := v \<rparr>)) c) = idx (hp c)"
    by simp
  have n: "candidates hp ov pl = [] \<Longrightarrow> length s \<noteq> 1"
    by (simp add: narrow_def s_def)
  have "find_parent_child cl pl c hp =
      (if candidates hp ov pl = [] then Inr (ensure_parent c hp)
       else if length s = 1 then
         (case children ((hp(c := (hp c)\<lparr> parent := v \<rparr>)) p) of
               None \<Rightarrow> Inl TypeError
             | Some ch \<Rightarrow>
                 Inr ((hp(c := (hp c)\<lparr> parent := v \<rparr>))
                        (p := ((hp(c := (hp c)\<lparr> parent := v \<rparr>)) p)\<lparr> children :=
                        Some (append_to ch cl (idx ((hp(c := (hp c)\<lparr> parent := v \<rparr>)) c))) \<rparr>)))
       else Inr (ensure_parent c hp))"
    unfolding find_parent_child_def ensure_parent_alt Let_def
    unfolding candidates_ensure_parent ensure_parent_fields
    apply (simp only: assms if_False option.case)
    unfolding s_def[symmetric]
    unfolding p_def[symmetric] assign_ensure
    unfolding v_def[symmetric]
    by (rule refl)
  also have "\<dots> = (if length s = 1 then
         (case children ((hp(c := (hp c)\<lparr> parent := v \<rparr>)) p) of
               None \<Rightarrow> Inl TypeError
             | Some ch \<Rightarrow>
                 Inr ((hp(c := (hp c)\<lparr> parent := v \<rparr>))
                        (p := ((hp(c := (hp c)\<lparr> parent := v \<rparr>)) p)\<lparr> children :=
                        Some (append_to ch cl (idx (hp c))) \<rparr>)))
       else Inr (ensure_parent c hp))"
    unfolding i using n by (cases "candidates hp ov pl = []") simp_all
  finally show ?thesis
    unfolding ch Let_def p_def[symmetric] v_def[symmetric] .
qed

section \<open>What the parent assignment leaves unchanged\<close>

lemma core_of_simps [simp]:
  "core_of (ob\<lparr> parent := v \<rparr>) = core_of ob"
  "core_of (ob\<lparr> children := u \<rparr>) = core_of ob"
  by (simp_all add: core_of_def)

lemma core_of_fields:
  "overlap (core_of ob) = overlap ob"
  "duplicate (core_of ob) = duplicate ob"
  "idx (core_of ob) = idx ob"
  "label (core_of ob) = label ob"
  "imageID (core_of ob) = imageID ob"
  "x0 (core_of ob) = x0 ob" "x1 (core_of ob) = x1 ob"
  "y0 (core_of ob) = y0 ob" "y1 (core_of ob) = y1 ob"
  "w (core_of ob) = w ob" "h (core_of ob) = h ob"
  "xc (core_of ob) = xc ob" "yc (core_of ob) = yc ob"
  "area (core_of ob) = area ob" "all_ref (core_of ob) = all_ref ob"
  by (simp_all add: core_of_def)

lemma core_of_ensure_parent [simp]: "core_of (ensure_parent c hp a) = core_of (hp a)"
  by (simp add: ensure_parent_def)

lemma core_of_assign [simp]: "core_of (assign cl pl c p hp a) = core_of (hp a)"
  by (simp add: assign_def Let_def)

lemma children_map_parent_upd [simp]:
  "children_map (ob\<lparr> parent := v \<rparr>) = children_map ob"
  by (simp add: children_map_def)

lemma parent_assign:
  "parent (assign cl pl c p hp a) =
     (if a = c then Some ((parent_map (hp c))(pl \<mapsto> idx (hp p))) else parent (hp a))"
  by (simp add: assign_def Let_def)

lemma children_assign:
  "children (assign cl pl c p hp a) =
     (if a = p then Some (append_to (children_map (hp p)) cl (idx (hp c)))
      else children (hp a))"
  by (simp add: assign_def Let_def)

lemma parent_ensure_parent:
  "parent (ensure_parent c hp a) = (if a = c then Some (parent_map (hp c)) else parent (hp a))"
  by (simp add: ensure_parent_def)

lemma find_parent_child_Inr:
  assumes "find_parent_child cl pl c hp = Inr hp'"
  shows "hp' = ensure_parent c hp
       \<or> (\<not> truthy (duplicate (hp c)) \<and> length (chosen hp pl c) = 1
           \<and> children (hp (obj (hd (chosen hp pl c)))) \<noteq> None
           \<and> hp' = assign cl pl c (obj (hd (chosen hp pl c))) hp)"
proof (cases "truthy (duplicate (hp c))")
  case True
  with assms show ?thesis by (simp add: find_parent_child_dup)
next
  case nd: False
  show ?thesis
  proof (cases "overlap (hp c)")
    case None
    with nd assms show ?thesis by (simp add: find_parent_child_no_overlap)
  next
    case (Some ov)
    note st = find_parent_child_step[of hp c ov cl pl, OF nd Some]
    show ?thesis
    proof (cases "length (chosen hp pl c) = 1")
      case False
      with st assms show ?thesis by simp
    next
      case True
      define p where "p = obj (hd (chosen hp pl c))"
      define hp2 where "hp2 = hp(c := (hp c)\<lparr> parent :=
                            Some ((parent_map (hp c))(pl \<mapsto> idx (hp p))) \<rparr>)"
      have cm: "children (hp2 p) = children (hp p)" by (simp add: hp2_def)
      have "find_parent_child cl pl c hp = (case children (hp2 p) of
                    None \<Rightarrow> Inl TypeError
                  | Some ch \<Rightarrow>
                      Inr (hp2(p := (hp2 p)\<lparr> children :=
                             Some (append_to ch cl (idx (hp c))) \<rparr>)))"
        unfolding st hp2_def p_def Let_def using True by (simp only: if_True simp_thms)
      with assms have r: "(case children (hp2 p) of
                    None \<Rightarrow> Inl TypeError
                  | Some ch \<Rightarrow>
                      Inr (hp2(p := (hp2 p)\<lparr> children :=
                             Some (append_to ch cl (idx (hp c))) \<rparr>))) = Inr hp'"
        by (simp only:)
      then obtain ch where ch: "children (hp2 p) = Some ch"
        and hp': "hp' = hp2(p := (hp2 p)\<lparr> children := Some (append_to ch cl (idx (hp c))) \<rparr>)"
        by (cases "children (hp2 p)") auto
      have "children_map (hp2 p) = ch" using ch by (simp add: children_map_def)
      then have "hp' = assign cl pl c p hp"
        unfolding hp' assign_def Let_def hp2_def[symmetric] by simp
      moreover have "children (hp p) \<noteq> None" using ch cm by simp
      ultimately show ?thesis using nd True unfolding p_def by blast
    qed
  qed
qed

lemma parent_loop_inv:
  assumes "parent_loop cl pl cs hp = Inr hp'" "P hp"
    and "\<And>c h h'. c \<in> set cs \<Longrightarrow> P h \<Longrightarrow> find_parent_child cl pl c h = Inr h' \<Longrightarrow> P h'"
  shows "P hp'"
  using assms
proof (induction cs arbitrary: hp)
  case Nil
  then show ?case by simp
next
  case (Cons c cs)
  from Cons.prems(1) obtain h1 where h1: "find_parent_child cl pl c hp = Inr h1"
    and r: "parent_loop cl pl cs h1 = Inr hp'"
    by (auto split: sum.splits)
  have "P h1" using Cons.prems(3)[of c hp h1] Cons.prems(2) h1 by simp
  show ?case
    by (rule Cons.IH[where hp=h1, OF r \<open>P h1\<close>]) (use Cons.prems(3) in auto)
qed

lemma fold_init_children_inv:
  assumes "P hp" "\<And>p h. p \<in> set ps \<Longrightarrow> P h \<Longrightarrow> P (init_children p h)"
  shows "P (fold init_children ps hp)"
  using assms by (induction ps arbitrary: hp) simp_all

lemma find_parent_image_inv:
  assumes "find_parent_image cl pl d hp = Inr hp'" "P hp"
    and "\<And>p h. P h \<Longrightarrow> P (init_children p h)"
    and "\<And>c h h'. P h \<Longrightarrow> find_parent_child cl pl c h = Inr h' \<Longrightarrow> P h'"
  shows "P hp'"
proof -
  have "hp' = hp \<or> (\<exists>cs ps. parent_loop cl pl cs (fold init_children ps hp) = Inr hp')"
    using assms(1) unfolding find_parent_image_def
    by (auto split: option.splits if_splits)
  then show ?thesis
  proof
    assume "hp' = hp" with assms(2) show ?thesis by simp
  next
    assume "\<exists>cs ps. parent_loop cl pl cs (fold init_children ps hp) = Inr hp'"
    then obtain cs ps where r: "parent_loop cl pl cs (fold init_children ps hp) = Inr hp'"
      by blast
    have "P (fold init_children ps hp)"
      by (rule fold_init_children_inv) (use assms(2,3) in auto)
    show ?thesis
      by (rule parent_loop_inv[where P=P, OF r \<open>P (fold init_children ps hp)\<close>])
         (use assms(4) in blast)
  qed
qed

lemma find_parent_inv:
  assumes "find_parent c cl pl hp = Inr hp'" "P hp"
    and "\<And>p h. P h \<Longrightarrow> P (init_children p h)"
    and "\<And>ch h h'. P h \<Longrightarrow> find_parent_child cl pl ch h = Inr h' \<Longrightarrow> P h'"
  shows "P hp'"
  using assms(1,2)
proof (induction c arbitrary: hp)
  case Nil
  then show ?case by simp
next
  case (Cons x c)
  obtain i d where x: "x = (i, d)" by (cases x)
  from Cons.prems(1) obtain h1 where h1: "find_parent_image cl pl d hp = Inr h1"
    and r: "find_parent c cl pl h1 = Inr hp'"
    unfolding x by (auto split: sum.splits)
  have "P h1"
    by (rule find_parent_image_inv[where P=P, OF h1 Cons.prems(2)]) (use assms(3,4) in blast)+
  from Cons.IH[OF r this] show ?case .
qed

lemma find_parents_inv:
  assumes "find_parents c pairs hp = Inr hp'" "P hp"
    and "\<And>p h. P h \<Longrightarrow> P (init_children p h)"
    and "\<And>cl pl ch h h'. (cl, pl) \<in> set pairs \<Longrightarrow> P h
           \<Longrightarrow> find_parent_child cl pl ch h = Inr h' \<Longrightarrow> P h'"
  shows "P hp'"
  using assms
proof (induction pairs arbitrary: hp)
  case Nil
  then show ?case by simp
next
  case (Cons x pairs)
  obtain cl pl where x: "x = (cl, pl)" by (cases x)
  from Cons.prems(1) obtain h1 where h1: "find_parent c cl pl hp = Inr h1"
    and r: "find_parents c pairs h1 = Inr hp'"
    unfolding x by (auto split: sum.splits)
  have "P h1"
    by (rule find_parent_inv[where P=P, OF h1 Cons.prems(2)])
       (use Cons.prems(3,4) x in \<open>simp_all, blast\<close>)
  show ?case
  proof (rule Cons.IH[where hp=h1, OF r \<open>P h1\<close>])
    show "\<And>p h. P h \<Longrightarrow> P (init_children p h)" by (rule Cons.prems(3))
    show "\<And>cl pl ch h h'. (cl, pl) \<in> set pairs \<Longrightarrow> P h
           \<Longrightarrow> find_parent_child cl pl ch h = Inr h' \<Longrightarrow> P h'"
      using Cons.prems(4) by (meson list.set_intros(2))
  qed
qed

section \<open>Flagged objects stay unlinked\<close>

lemma init_children_fields [simp]:
  "core_of (init_children p hp a) = core_of (hp a)"
  "parent (init_children p hp a) = parent (hp a)"
  "children_map (init_children p hp a) = children_map (hp a)"
  by (auto simp: init_children_def children_map_def)

lemma core_eq_fields:
  assumes "core_of a = core_of b"
  shows "overlap a = overlap b" "duplicate a = duplicate b" "idx a = idx b"
    "label a = label b"
  using assms core_of_fields by metis+

lemma chosen_subset_candidates:
  assumes "overlap (hp c) = Some ov"
  shows "set (chosen hp pl c) \<subseteq> set (candidates hp ov pl)"
  using assms set_narrow_subset by (simp add: chosen_def)

lemma chosen_None: "overlap (hp c) = None \<Longrightarrow> chosen hp pl c = []"
  by (simp add: chosen_def)

lemma chosen_single:
  assumes "length (chosen hp pl c) = 1"
  shows "hd (chosen hp pl c) \<in> set (facts_under (hp c) pl)
       \<and> center_of_self (hd (chosen hp pl c))
       \<and> \<not> truthy (duplicate (hp (obj (hd (chosen hp pl c)))))"
proof -
  from assms have ne: "chosen hp pl c \<noteq> []" by auto
  then obtain ov where ov: "overlap (hp c) = Some ov"
    using chosen_None[of hp c pl] by (cases "overlap (hp c)") auto
  from ne have "hd (chosen hp pl c) \<in> set (chosen hp pl c)" by simp
  with chosen_subset_candidates[of hp c ov pl, OF ov] have "hd (chosen hp pl c) \<in> set (candidates hp ov pl)"
    by blast
  then show ?thesis by (simp add: candidates_def facts_under_def ov)
qed

lemma dup_unlinked_step:
  assumes "find_parent_child cl pl c hp = Inr hp'" "dup_unlinked hp"
  shows "dup_unlinked hp'"
proof -
  from find_parent_child_Inr[OF assms(1)] show ?thesis
  proof
    assume "hp' = ensure_parent c hp"
    with assms(2) show ?thesis
      by (auto simp: dup_unlinked_def ensure_parent_def parent_map_def children_map_def)
  next
    assume a: "\<not> truthy (duplicate (hp c)) \<and> length (chosen hp pl c) = 1
           \<and> children (hp (obj (hd (chosen hp pl c)))) \<noteq> None
           \<and> hp' = assign cl pl c (obj (hd (chosen hp pl c))) hp"
    define p where "p = obj (hd (chosen hp pl c))"
    from a chosen_single[of hp pl c] have np: "\<not> truthy (duplicate (hp p))"
      by (simp add: p_def)
    have hp': "hp' = assign cl pl c p hp" using a by (simp add: p_def)
    have d: "duplicate (hp' x) = duplicate (hp x)" for x
      using core_eq_fields(2)[of "hp' x" "hp x"] unfolding hp' by simp
    show ?thesis
      unfolding dup_unlinked_def
    proof (intro allI impI)
      fix x assume "truthy (duplicate (hp' x))"
      then have t: "truthy (duplicate (hp x))" by (simp add: d)
      with a np have "x \<noteq> c" "x \<noteq> p" by auto
      then have "parent (hp' x) = parent (hp x)" "children (hp' x) = children (hp x)"
        unfolding hp' by (simp_all add: parent_assign children_assign)
      with assms(2) t show "parent_map (hp' x) = Map.empty \<and> children_map (hp' x) = Map.empty"
        by (simp add: dup_unlinked_def parent_map_def children_map_def)
    qed
  qed
qed

lemma dup_unlinked_init: "dup_unlinked hp \<Longrightarrow> dup_unlinked (init_children p hp)"
proof -
  assume a: "dup_unlinked hp"
  have "duplicate (init_children p hp x) = duplicate (hp x)" for x
    using core_eq_fields(2)[of "init_children p hp x" "hp x"] by simp
  moreover have "parent_map (init_children p hp x) = parent_map (hp x)" for x
    by (simp add: parent_map_def)
  ultimately show ?thesis using a by (simp add: dup_unlinked_def)
qed

lemma dup_unlinked_find_parents:
  assumes "find_parents c pairs hp = Inr hp'" "dup_unlinked hp"
  shows "dup_unlinked hp'"
  by (rule find_parents_inv[where P=dup_unlinked, OF assms])
     (auto intro: dup_unlinked_init dup_unlinked_step)

lemma core_find_parents:
  assumes "find_parents c pairs hp = Inr hp'"
  shows "core_of (hp' x) = core_of (hp x)"
proof -
  have "\<forall>x. core_of (hp' x) = core_of (hp x)"
  proof (rule find_parents_inv[where P="\<lambda>h. \<forall>x. core_of (h x) = core_of (hp x)", OF assms])
    show "\<forall>x. core_of (hp x) = core_of (hp x)" by simp
  next
    fix p h assume "\<forall>x. core_of (h x) = core_of (hp x)"
    then show "\<forall>x. core_of (init_children p h x) = core_of (hp x)" by simp
  next
    fix cl pl ch h h'
    assume "\<forall>x. core_of (h x) = core_of (hp x)" "find_parent_child cl pl ch h = Inr h'"
    with find_parent_child_Inr[of cl pl ch h h']
    show "\<forall>x. core_of (h' x) = core_of (hp x)" by auto
  qed
  then show ?thesis by simp
qed

section \<open>The overlap pass and the duplicate pass leave the links alone\<close>

lemma compare_shape:
  assumes "compare a b hp = Inr hp'"
  shows "hp' = hp
       \<or> (\<exists>v1 v2. hp' = (hp(a := (hp a)\<lparr> overlap := v1 \<rparr>))
                            (b := ((hp(a := (hp a)\<lparr> overlap := v1 \<rparr>)) b)\<lparr> overlap := v2 \<rparr>))"
  using assms unfolding compare_def Let_def
  by (simp only: sum.distinct sum.inject simp_thms split: if_splits option.splits) blast+

lemma compare_links:
  assumes "compare a b hp = Inr hp'"
  shows "parent (hp' x) = parent (hp x) \<and> children (hp' x) = children (hp x)"
  using compare_shape[OF assms] by auto

lemma compare_with_links:
  assumes "compare_with a bs hp = Inr hp'"
  shows "parent (hp' x) = parent (hp x) \<and> children (hp' x) = children (hp x)"
  using assms
proof (induction bs arbitrary: hp)
  case Nil
  then show ?case by simp
next
  case (Cons b bs)
  then obtain h1 where "compare a b hp = Inr h1" "compare_with a bs h1 = Inr hp'"
    by (auto split: sum.splits)
  with Cons.IH[of h1] compare_links[of a b hp h1 x] show ?case by simp
qed

lemma compare_all_links:
  assumes "compare_all as hp = Inr hp'"
  shows "parent (hp' x) = parent (hp x) \<and> children (hp' x) = children (hp x)"
  using assms
proof (induction as arbitrary: hp)
  case Nil
  then show ?case by simp
next
  case (Cons a as)
  then obtain h1 where "compare_with a as hp = Inr h1" "compare_all as h1 = Inr hp'"
    by (auto split: sum.splits)
  with Cons.IH[of h1] compare_with_links[of a as hp h1 x] show ?case by simp
qed

lemma fold_reset_links:
  "parent (fold reset_overlap as hp x) = parent (hp x)
   \<and> children (fold reset_overlap as hp x) = children (hp x)"
  by (induction as arbitrary: hp) (simp_all add: reset_overlap_def)

lemma find_overlapping_links:
  assumes "find_overlapping_objects c hp = Inr hp'"
  shows "parent (hp' x) = parent (hp x) \<and> children (hp' x) = children (hp x)"
  using assms
proof (induction c arbitrary: hp)
  case Nil
  then show ?case by simp
next
  case (Cons e c)
  obtain i d where e: "e = (i, d)" by (cases e)
  from Cons.prems obtain h1 where h1: "overlap_image d hp = Inr h1"
    and r: "find_overlapping_objects c h1 = Inr hp'"
    unfolding e by (auto split: sum.splits)
  from h1 have "parent (h1 x) = parent (hp x) \<and> children (h1 x) = children (hp x)"
    unfolding overlap_image_def
    using compare_all_links[of "flat_of d" "fold reset_overlap (flat_of d) hp" h1 x]
      fold_reset_links[of "flat_of d" hp x] by simp
  with Cons.IH[OF r] show ?case by simp
qed

lemma duplicates_list_links:
  assumes "duplicates_list as hp = Inr hp'"
  shows "parent (hp' x) = parent (hp x) \<and> children (hp' x) = children (hp x)"
  using assms
proof (induction as arbitrary: hp)
  case Nil
  then show ?case by simp
next
  case (Cons a as)
  then obtain b where "duplicates_list as (hp(a := (hp a)\<lparr> duplicate := Some b \<rparr>)) = Inr hp'"
    by (auto split: sum.splits)
  from Cons.IH[OF this] show ?case by (simp split: if_splits)
qed

lemma fresh_after_passes:
  assumes "fresh hp" "find_overlapping_objects c hp = Inr h1" "find_duplicates c h1 = Inr h2"
  shows "fresh h2"
  using assms find_overlapping_links[of c hp h1] duplicates_list_links[of "all_addrs c" h1 h2]
  by (simp add: fresh_def find_duplicates_flat)

lemma fresh_dup_unlinked: "fresh hp \<Longrightarrow> dup_unlinked hp"
  by (simp add: fresh_def dup_unlinked_def parent_map_def children_map_def)

section \<open>Fresh heaps\<close>

lemma fresh_init:
  assumes "fresh (heap wd)"
  shows "fresh (heap (fst (HierObject_init r all_obj wd)))"
proof -
  have "heap (fst (HierObject_init r all_obj wd)) = heap wd
      \<or> (\<exists>a s. heap (fst (HierObject_init r all_obj wd))
                   = (heap wd)(a := s\<lparr> overlap := None, duplicate := None,
                                         parent := None, children := None \<rparr>))"
    unfolding HierObject_init_def Let_def create_all_dict_def
    by (auto split: option.splits sum.splits prod.splits)
  with assms show ?thesis by (auto simp: fresh_def)
qed

lemma fresh_fold:
  "fresh (heap wd) \<Longrightarrow> fresh (heap (fold (\<lambda>r wd'. fst (HierObject_init r None wd')) rs wd))"
  by (induction rs arbitrary: wd) (simp_all add: fresh_init)

lemma fresh_construct: "fresh (heap (construct rs empty_world))"
  unfolding construct_def
  by (rule fresh_fold) (simp add: fresh_def empty_world_def blank_def)

lemma candidates_core:
  assumes "\<And>x. core_of (hp x) = core_of (hp' x)"
  shows "candidates hp ov pl = candidates hp' ov pl"
proof -
  have "duplicate (hp x) = duplicate (hp' x)" for x
    using core_eq_fields(2)[OF assms] .
  then show ?thesis by (simp add: candidates_def)
qed

lemma no_candidate_no_parent:
  assumes fp: "find_parents c pairs hp = Inr hp'"
    and none: "parent_map (hp a) pl = None"
    and dups: "\<forall>f\<in>set (facts_under (hp a) pl).
                 center_of_self f \<longrightarrow> truthy (duplicate (hp (obj f)))"
  shows "parent_map (hp' a) pl = None"
proof -
  let ?P = "\<lambda>h. (\<forall>x. core_of (h x) = core_of (hp x)) \<and> parent_map (h a) pl = None"
  have "?P hp'"
  proof (rule find_parents_inv[where P="?P", OF fp])
    show "?P hp" using none by simp
  next
    fix p h assume "?P h"
    then show "?P (init_children p h)" by (simp add: parent_map_def)
  next
    fix cl' pl' ch h h'
    assume P: "?P h" and st: "find_parent_child cl' pl' ch h = Inr h'"
    from find_parent_child_Inr[OF st] show "?P h'"
    proof
      assume "h' = ensure_parent ch h"
      with P show ?thesis
        by (auto simp: parent_ensure_parent parent_map_def)
    next
      assume as: "\<not> truthy (duplicate (h ch)) \<and> length (chosen h pl' ch) = 1
           \<and> children (h (obj (hd (chosen h pl' ch)))) \<noteq> None
           \<and> h' = assign cl' pl' ch (obj (hd (chosen h pl' ch))) h"
      have "\<not> (ch = a \<and> pl' = pl)"
      proof
        assume e: "ch = a \<and> pl' = pl"
        from as e chosen_single[of h pl a]
        have f: "hd (chosen h pl a) \<in> set (facts_under (h a) pl)"
          "center_of_self (hd (chosen h pl a))"
          "\<not> truthy (duplicate (h (obj (hd (chosen h pl a)))))"
          by simp_all
        have "facts_under (h a) pl = facts_under (hp a) pl"
          using P core_eq_fields(1)[of "h a" "hp a"] by (simp add: facts_under_def)
        moreover have "duplicate (h x) = duplicate (hp x)" for x
          using P core_eq_fields(2)[of "h x" "hp x"] by simp
        ultimately show False using f dups by auto
      qed
      with as P show ?thesis
        by (auto simp: parent_assign parent_map_def)
    qed
  qed
  then show ?thesis by simp
qed

lemma get_hierarchy_parts:
  assumes "get_hierarchy c pairs hp = Inr hp'"
  obtains h1 h2 where "find_overlapping_objects c hp = Inr h1"
    "find_duplicates c h1 = Inr h2" "find_parents c pairs h2 = Inr hp'"
  using assms unfolding get_hierarchy_def by (auto split: sum.splits)

text \<open>
  Claim C4.  When \<open>get_hierarchy\<close> returns on a heap in which no object has a \<open>parent\<close>
  or a \<open>children\<close> attribute, every object flagged as a duplicate has no parent entry
  and no list of children under any label.  A child whose facts under a parent label
  with the centre flag set all point to flagged objects has no parent entry under that
  label.
\<close>

theorem duplicates_stay_unlinked:
  assumes "fresh hp" and "get_hierarchy c pairs hp = Inr hp'"
  shows "(\<forall>a. truthy (duplicate (hp' a)) \<longrightarrow>
              parent_map (hp' a) = Map.empty \<and> children_map (hp' a) = Map.empty)
       \<and> (\<forall>a pl. (\<forall>f\<in>set (facts_under (hp' a) pl).
                      center_of_self f \<longrightarrow> truthy (duplicate (hp' (obj f))))
                  \<longrightarrow> parent_map (hp' a) pl = None)"
proof -
  from assms(2) obtain h1 h2 where p: "find_overlapping_objects c hp = Inr h1"
    "find_duplicates c h1 = Inr h2" "find_parents c pairs h2 = Inr hp'"
    by (rule get_hierarchy_parts)
  have f2: "fresh h2" by (rule fresh_after_passes[OF assms(1) p(1,2)])
  have "dup_unlinked hp'"
    by (rule dup_unlinked_find_parents[OF p(3) fresh_dup_unlinked[OF f2]])
  then have 1: "\<forall>a. truthy (duplicate (hp' a)) \<longrightarrow>
              parent_map (hp' a) = Map.empty \<and> children_map (hp' a) = Map.empty"
    by (simp add: dup_unlinked_def)
  have co: "core_of (hp' x) = core_of (h2 x)" for x
    by (rule core_find_parents[OF p(3)])
  have 2: "parent_map (hp' a) pl = None"
    if d: "\<forall>f\<in>set (facts_under (hp' a) pl).
             center_of_self f \<longrightarrow> truthy (duplicate (hp' (obj f)))" for a pl
  proof (rule no_candidate_no_parent[OF p(3)])
    show "parent_map (h2 a) pl = None"
      using f2 by (simp add: fresh_def parent_map_def)
    have "facts_under (hp' a) pl = facts_under (h2 a) pl"
      using core_eq_fields(1)[OF co[of a]] by (simp add: facts_under_def)
    moreover have "duplicate (hp' x) = duplicate (h2 x)" for x
      using core_eq_fields(2)[OF co[of x]] .
    ultimately show "\<forall>f\<in>set (facts_under (h2 a) pl).
                       center_of_self f \<longrightarrow> truthy (duplicate (h2 (obj f)))"
      using d by simp
  qed
  from 1 2 show ?thesis by blast
qed

lemma twin_run:
  "case get_hierarchy (the_all None twin_world) [(''Object'', ''Group'')] (heap twin_world) of
     Inl e \<Rightarrow> False
   | Inr hp \<Rightarrow>
       duplicate (hp 0) = Some True
       \<and> map obj (filter center_of_self (facts_under (hp 2) ''Group'')) = [0]
       \<and> parent_map (hp 3) ''Group'' = Some 1"
  by code_simp

theorem duplicates_stay_unlinked_witness:
  "fresh (heap twin_world)
   \<and> get_hierarchy (the_all None twin_world) [(''Object'', ''Group'')] (heap twin_world)
       = Inr twin_result
   \<and> duplicate (twin_result 0) = Some True
   \<and> parent_map (twin_result 0) = Map.empty \<and> children_map (twin_result 0) = Map.empty
   \<and> map obj (filter center_of_self (facts_under (twin_result 2) ''Group'')) = [0]
   \<and> parent_map (twin_result 2) ''Group'' = None
   \<and> parent_map (twin_result 3) ''Group'' = Some 1"
proof -
  have f: "fresh (heap twin_world)"
    unfolding twin_world_def by (rule fresh_construct)
  from twin_run have r: "get_hierarchy (the_all None twin_world) [(''Object'', ''Group'')]
      (heap twin_world) = Inr twin_result"
    and d: "duplicate (twin_result 0) = Some True"
    and c: "map obj (filter center_of_self (facts_under (twin_result 2) ''Group'')) = [0]"
    and p: "parent_map (twin_result 3) ''Group'' = Some 1"
    unfolding twin_result_def by (auto split: sum.splits)
  have s: "\<forall>f\<in>set (facts_under (twin_result 2) ''Group'').
             center_of_self f \<longrightarrow> truthy (duplicate (twin_result (obj f)))"
  proof (intro ballI impI)
    fix f assume "f \<in> set (facts_under (twin_result 2) ''Group'')" "center_of_self f"
    then have "obj f \<in> set (map obj (filter center_of_self (facts_under (twin_result 2) ''Group'')))"
      by auto
    then have "obj f = 0" unfolding c by simp
    then show "truthy (duplicate (twin_result (obj f)))" using d by (simp add: truthy_def)
  qed
  from duplicates_stay_unlinked[OF f r] d s
  have "parent_map (twin_result 0) = Map.empty \<and> children_map (twin_result 0) = Map.empty"
    "parent_map (twin_result 2) ''Group'' = None"
    by (simp_all add: truthy_def)
  with f r d c p show ?thesis by simp
qed

section \<open>The example of the source file\<close>

text \<open>
  Claim C5.  The three example objects are built in the order Object 0, Object 1,
  Group 0 in one image; after \<open>get_hierarchy\<close> with the pair (Object, Group) the group
  has the children list \<open>[0]\<close> under Object, Object 0 has the parent 0 under Group, and
  Object 1 has a parent dict without a Group entry, its center being outside the group.
\<close>

theorem example_hierarchy:
  "let wd = example_world;
       c = the_all None wd;
       hp0 = heap wd;
       ob0 = bucket c ''i1'' ''Object'' ! 0;
       ob1 = bucket c ''i1'' ''Object'' ! 1;
       gr0 = bucket c ''i1'' ''Group'' ! 0
   in c = [(''i1'', [(''Object'', [ob0, ob1]), (''Group'', [gr0])])]
      \<and> map (\<lambda>a. (x0 (hp0 a), y0 (hp0 a), x1 (hp0 a), y1 (hp0 a))) [ob0, ob1, gr0]
          = [(fl (2 / 10), fl (3 / 10), fl (4 / 10), fl (5 / 10)),
             (fl (1 / 10), fl (4 / 10), fl (3 / 10), fl (8 / 10)),
             (fl (1 / 10), fl (1 / 10), fl (5 / 10), fl (5 / 10))]
      \<and> (case get_hierarchy c [(''Object'', ''Group'')] hp0 of
            Inl e \<Rightarrow> False
          | Inr hp \<Rightarrow>
              map_option (\<lambda>m. m ''Object'') (children (hp gr0)) = Some (Some [0])
              \<and> map_option (\<lambda>m. m ''Group'') (parent (hp ob0)) = Some (Some 0)
              \<and> map_option (\<lambda>m. m ''Group'') (parent (hp ob1)) = Some None
              \<and> \<not> center_is_inside (hp ob1) (hp gr0))"
  by code_simp

end
